theory Spec2Isabelle
  imports Main "HOL-Library.AList"
begin

section \<open>The irrigation control kernel: data\<close>

text \<open>
  The embedding follows the MicroPython sources module by module. A Python dictionary is
  an association list (insertion order is what \<open>list(d.keys())\<close> and \<open>d.items()\<close>
  iterate over): \<open>d[k] = v\<close> is \<open>AList.update\<close>, \<open>del d[k]\<close> is
  \<open>AList.delete\<close>, \<open>k in d\<close> is \<open>k \<in> fst ` set d\<close>, \<open>len(d)\<close> is
  \<open>length\<close>, \<open>not d\<close> is \<open>d = []\<close>.
\<close>

subsection \<open>GPIO pins (machine.Pin)\<close>

text \<open>
  A \<open>Pin\<close> object keeps the last level written through it. The relays are active-low:
  \<open>value(0)\<close> asserts, \<open>value(1)\<close> de-asserts. Every \<open>value(..)\<close> call of the
  source sits in a \<open>try\<close> block; \<open>faulty\<close> marks a pin whose write raises.
\<close>

record pin =
  pin_no :: int
  level :: int
  faulty :: bool

definition pin_value :: "pin \<Rightarrow> int \<Rightarrow> pin option" where
  "pin_value p v = (if faulty p then None else Some (p\<lparr>level := v\<rparr>))"

definition asserted :: "pin \<Rightarrow> bool" where
  "asserted p = (level p = 0)"

subsection \<open>Auto-stop timer tasks and active-zone records\<close>

text \<open>
  \<open>asyncio.create_task(_zone_timer(zone_id, duration))\<close> appends a task to the task
  table; the handle kept in the active-zone record is its index. \<open>task.cancel()\<close> turns
  a pending task into a cancelled one and leaves a finished one alone.
\<close>

datatype task_state = Pending | Cancelled | Finished

record timer =
  t_zone :: int
  t_duration :: int
  t_state :: task_state

definition cancel_task :: "nat \<Rightarrow> timer list \<Rightarrow> timer list" where
  "cancel_task h ts =
     (if h < length ts \<and> t_state (ts ! h) = Pending
      then ts[h := (ts ! h)\<lparr>t_state := Cancelled\<rparr>] else ts)"

record active_zone =
  az_start_time :: int
  az_duration :: int
  az_task :: nat

subsection \<open>JSON values and Python conversions\<close>

text \<open>
  The documents are JSON values as \<open>ujson\<close> reads and writes them; an object keeps its
  members in order.
\<close>

datatype json =
    JNull
  | JBool bool
  | JInt int
  | JStr string
  | JList "json list"
  | JObj "(string \<times> json) list"

datatype py_error = TypeError | AttributeError | ValueError

text \<open>
  \<open>str\<close> of a natural number, and \<open>int\<close> of a string of decimal digits (the keys this
  program writes); \<open>int\<close> of any other string is taken to raise ValueError.
\<close>

fun str_of_nat :: "nat \<Rightarrow> string" where
  "str_of_nat n =
     (if n < 10 then [''0123456789'' ! n]
      else str_of_nat (n div 10) @ [''0123456789'' ! (n mod 10)])"

definition digit_of :: "char \<Rightarrow> nat option" where
  "digit_of c = map_of (zip ''0123456789'' [0 ..< 10]) c"

fun digits_value :: "nat \<Rightarrow> string \<Rightarrow> nat option" where
  "digits_value acc [] = Some acc"
| "digits_value acc (c # cs) =
     (case digit_of c of None \<Rightarrow> None | Some d \<Rightarrow> digits_value (acc * 10 + d) cs)"

definition int_of_str :: "string \<Rightarrow> nat option" where
  "int_of_str s = (if s = [] then None else digits_value 0 s)"


text \<open>
  \<open>int(v)\<close> on a value read from a JSON document: an integer is itself, a boolean is 0
  or 1, \<open>null\<close>, a list or an object raise TypeError. A string is parsed as an
  optionally signed run of decimal digits between optional white space; on any other
  string \<open>int\<close> is taken to raise ValueError.
\<close>

definition is_space :: "char \<Rightarrow> bool" where
  "is_space c = (c \<in> set [CHR 0x20, CHR 0x09, CHR 0x0A, CHR 0x0B, CHR 0x0C, CHR 0x0D])"

definition strip :: "string \<Rightarrow> string" where
  "strip t = rev (dropWhile is_space (rev (dropWhile is_space t)))"

definition py_int :: "json \<Rightarrow> py_error + int" where
  "py_int v =
     (case v of
        JInt n \<Rightarrow> Inr n
      | JBool b \<Rightarrow> Inr (if b then 1 else 0)
      | JStr t \<Rightarrow>
          (case strip t of
             [] \<Rightarrow> Inl ValueError
           | c # ds \<Rightarrow>
               if c = CHR ''-''
               then (case int_of_str ds of None \<Rightarrow> Inl ValueError | Some k \<Rightarrow> Inr (- int k))
               else if c = CHR ''+''
               then (case int_of_str ds of None \<Rightarrow> Inl ValueError | Some k \<Rightarrow> Inr (int k))
               else (case int_of_str (c # ds) of
                       None \<Rightarrow> Inl ValueError
                     | Some k \<Rightarrow> Inr (int k)))
      | _ \<Rightarrow> Inl TypeError)"

text \<open>
  The bound of \<open>range(duration * 60)\<close> (line 282) for a \<open>duration\<close> that \<open>int\<close> has
  accepted: an integer or a boolean is multiplied; a string times 60 is a string, on
  which \<open>range\<close> raises TypeError.
\<close>

definition range_bound :: "json \<Rightarrow> py_error + int" where
  "range_bound v =
     (case v of
        JInt n \<Rightarrow> Inr (n * 60)
      | JBool b \<Rightarrow> Inr (if b then 60 else 0)
      | _ \<Rightarrow> Inl TypeError)"

subsection \<open>Programs and persisted files\<close>

datatype 'a stored = Missing | Corrupt | Content 'a

text \<open>
  A step dictionary: each of the two keys is absent or holds a JSON value (numbers are
  integers).
\<close>

record step =
  st_zone_id :: "json option"
  st_duration :: "json option"

text \<open>
  A program dictionary. Keys read with \<open>.get(key, default)\<close> whose absence is the same
  as the default everywhere are fields holding the default (\<open>months\<close>, \<open>steps\<close>,
  \<open>activation_time\<close>, \<open>recurrence\<close>, \<open>interval_days\<close>); \<open>id\<close>, \<open>name\<close> and
  \<open>last_run_date\<close> are optional: \<open>name\<close>, a string when present, is read with
  \<open>.get\<close> in some places and with \<open>['name']\<close>, which raises KeyError when the key
  is absent, in others.
\<close>

record program =
  p_id :: "string option"
  p_name :: "string option"
  p_months :: "string list"
  p_recurrence :: string
  p_interval_days :: int
  p_activation_time :: string
  p_steps :: "step list"
  p_last_run_date :: "string option"

record localtime =
  lt_month :: nat
  lt_yday :: int
  lt_hm :: string
  lt_date :: string

subsection \<open>The process state\<close>

text \<open>
  Python module globals are per module. \<open>program_state.py\<close> owns \<open>program_running\<close>
  and \<open>current_program_id\<close> (fields \<open>ps_*\<close>); \<open>program_manager.py\<close> binds names of
  its own by \<open>from program_state import program_running, current_program_id\<close> (fields
  \<open>pm_*\<close>). Inside a function that declares the names \<open>global\<close>, the statement
  \<open>from program_state import program_running\<close> copies the current value of
  \<open>program_state.program_running\<close> into the importing module's global, and a later
  \<open>program_running = True\<close> rebinds the importing module's global only.
  \<open>save_program_state\<close> is defined in \<open>program_state.py\<close> and writes that module's
  values.

  The settings fields hold what \<open>load_user_settings()\<close> returns for the keys the
  kernel reads; \<open>writable\<close> is false when opening a file for writing raises OSError;
  \<open>ticks\<close> counts the one-second sleeps taken so far.
\<close>

record kernel =
  ps_program_running :: bool
  ps_current_program_id :: "string option"
  pm_program_running :: bool
  pm_current_program_id :: "string option"
  state_file :: "(bool \<times> string option) stored"
  active_zones :: "(int \<times> active_zone) list"
  zone_pins :: "(int \<times> pin) list"
  safety_relay :: "pin option"
  timers :: "timer list"
  max_zone_duration :: int
  max_active_zones :: int
  activation_delay :: int
  automatic_programs_enabled :: bool
  program_file :: "(string \<times> program) list stored"
  writable :: bool
  now :: int
  ticks :: nat

section \<open>zone\_manager.py\<close>

definition get_active_zones_count :: "kernel \<Rightarrow> nat" where
  "get_active_zones_count s = length (active_zones s)"

text \<open>
  \<open>start_zone\<close>, lines 121-205. The busy test reads the value just imported from
  \<open>program_state\<close>. The four rejections leave the state as it is; a failed write of the
  zone pin returns after the safety relay has been written.
\<close>

definition start_zone :: "int \<Rightarrow> int \<Rightarrow> kernel \<Rightarrow> bool \<times> kernel" where
  "start_zone zone_id duration s =
    (if ps_program_running s then (False, s)
     else case map_of (zone_pins s) zone_id of
       None \<Rightarrow> (False, s)
     | Some zp \<Rightarrow>
        if duration \<le> 0 \<or> duration > max_zone_duration s then (False, s)
        else if int (length (active_zones s)) \<ge> max_active_zones s
                \<and> zone_id \<notin> fst ` set (active_zones s) then (False, s)
        else
          (case (case safety_relay s of
                   Some r \<Rightarrow>
                     if active_zones s = []
                     then (case pin_value r 0 of
                             None \<Rightarrow> None
                           | Some r' \<Rightarrow> Some (s\<lparr>safety_relay := Some r'\<rparr>))
                     else Some s
                 | None \<Rightarrow> Some s) of
             None \<Rightarrow> (False, s)
           | Some s1 \<Rightarrow>
              (case pin_value zp 0 of
                 None \<Rightarrow> (False, s1)
               | Some zp' \<Rightarrow>
                  let s2 = s1\<lparr>zone_pins := AList.update zone_id zp' (zone_pins s1)\<rparr>;
                      s3 = (case map_of (active_zones s2) zone_id of
                              Some old \<Rightarrow> s2\<lparr>timers := cancel_task (az_task old) (timers s2)\<rparr>
                            | None \<Rightarrow> s2);
                      task = length (timers s3);
                      s4 = s3\<lparr>timers := timers s3 @
                              [\<lparr>t_zone = zone_id, t_duration = duration, t_state = Pending\<rparr>]\<rparr>
                  in (True,
                      s4\<lparr>active_zones := AList.update zone_id
                           \<lparr>az_start_time = now s4, az_duration = duration, az_task = task\<rparr>
                           (active_zones s4)\<rparr>))))"

text \<open>
  \<open>stop_zone\<close>, lines 226-277. A failed write of the zone pin returns \<open>False\<close> at
  once (line 254); otherwise the timer is cancelled, the record deleted, and the safety
  relay written when the table is empty.
\<close>

definition stop_zone :: "int \<Rightarrow> kernel \<Rightarrow> bool \<times> kernel" where
  "stop_zone zone_id s =
    (case map_of (zone_pins s) zone_id of
       None \<Rightarrow> (False, s)
     | Some zp \<Rightarrow>
        (case pin_value zp 1 of
           None \<Rightarrow> (False, s)
         | Some zp' \<Rightarrow>
            let s1 = s\<lparr>zone_pins := AList.update zone_id zp' (zone_pins s)\<rparr>;
                s2 = (case map_of (active_zones s1) zone_id of
                        Some r \<Rightarrow> s1\<lparr>timers := cancel_task (az_task r) (timers s1),
                                     active_zones := AList.delete zone_id (active_zones s1)\<rparr>
                      | None \<Rightarrow> s1)
            in (case safety_relay s2 of
                  Some r \<Rightarrow>
                    if active_zones s2 = []
                    then (case pin_value r 1 of
                            None \<Rightarrow> (False, s2)
                          | Some r' \<Rightarrow> (True, s2\<lparr>safety_relay := Some r'\<rparr>))
                    else (True, s2)
                | None \<Rightarrow> (True, s2))))"

text \<open>\<open>stop_all_zones\<close>, lines 279-298: the loop runs over a snapshot of the keys.\<close>

fun stop_each :: "int list \<Rightarrow> bool \<Rightarrow> kernel \<Rightarrow> bool \<times> kernel" where
  "stop_each [] success s = (success, s)"
| "stop_each (z # zs) success s =
     (case stop_zone z s of (ok, s') \<Rightarrow> stop_each zs (if ok then success else False) s')"

definition stop_all_zones :: "kernel \<Rightarrow> bool \<times> kernel" where
  "stop_all_zones s =
     (if active_zones s = [] then (True, s)
      else stop_each (map fst (active_zones s)) True s)"

text \<open>
  \<open>_zone_timer\<close>, lines 207-224, once its sleep is over: a pending timer stops its zone
  if the zone is still in the table, and is finished.
\<close>

definition zone_timer_fires :: "nat \<Rightarrow> kernel \<Rightarrow> kernel" where
  "zone_timer_fires h s =
     (if h < length (timers s) \<and> t_state (timers s ! h) = Pending
      then let z = t_zone (timers s ! h);
               s1 = s\<lparr>timers := (timers s)[h := (timers s ! h)\<lparr>t_state := Finished\<rparr>]\<rparr>
           in if z \<in> fst ` set (active_zones s1) then snd (stop_zone z s1) else s1
      else s)"

definition relay_on :: "kernel \<Rightarrow> bool" where
  "relay_on s = (case safety_relay s of None \<Rightarrow> False | Some r \<Rightarrow> asserted r)"

section \<open>program\_state.py\<close>

text \<open>
  \<open>save_program_state\<close> writes the globals of \<open>program_state.py\<close>; an OSError is
  caught and logged. \<open>load_program_state\<close> reads them back, and resets and saves when
  the file is missing or invalid.
\<close>

definition save_program_state :: "kernel \<Rightarrow> kernel" where
  "save_program_state s =
     (if writable s
      then s\<lparr>state_file := Content (ps_program_running s, ps_current_program_id s)\<rparr>
      else s)"

definition load_program_state :: "kernel \<Rightarrow> kernel" where
  "load_program_state s =
     (case state_file s of
        Content (r, c) \<Rightarrow> s\<lparr>ps_program_running := r, ps_current_program_id := c\<rparr>
      | _ \<Rightarrow> save_program_state (s\<lparr>ps_program_running := False, ps_current_program_id := None\<rparr>))"

section \<open>program\_manager.py\<close>

subsection \<open>The programs file\<close>

definition save_programs :: "(string \<times> program) list \<Rightarrow> kernel \<Rightarrow> bool \<times> kernel" where
  "save_programs programs s =
     (if writable s then (True, s\<lparr>program_file := Content programs\<rparr>) else (False, s))"

text \<open>
  \<open>load_programs\<close>, lines 16-38: a program without an \<open>id\<close> gets its key
  (\<open>fill_id\<close>, lines 27-29); a missing file (OSError) is replaced by an empty one; any
  other failure gives the empty dictionary without writing.
\<close>

definition fill_id :: "string \<times> program \<Rightarrow> string \<times> program" where
  "fill_id = (\<lambda>(prog_id, p). (prog_id, if p_id p = None then p\<lparr>p_id := Some prog_id\<rparr> else p))"

definition load_programs :: "kernel \<Rightarrow> (string \<times> program) list \<times> kernel" where
  "load_programs s =
     (case program_file s of
        Content programs \<Rightarrow> (map fill_id programs, s)
      | Missing \<Rightarrow> ([], snd (save_programs [] s))
      | Corrupt \<Rightarrow> ([], s))"


subsection \<open>Cancellation\<close>

text \<open>
  The effect of \<open>from program_state import program_running, current_program_id\<close> in a
  function of \<open>program_manager.py\<close> that declares both names \<open>global\<close>.
\<close>

definition import_program_state :: "kernel \<Rightarrow> kernel" where
  "import_program_state s =
     s\<lparr>pm_program_running := ps_program_running s,
       pm_current_program_id := ps_current_program_id s\<rparr>"

text \<open>\<open>stop_program\<close>, lines 316-341.\<close>

definition stop_program :: "kernel \<Rightarrow> bool \<times> kernel" where
  "stop_program s =
     (let s0 = import_program_state s in
      if \<not> pm_program_running s0 then (False, s0)
      else let s1 = save_program_state
                      (s0\<lparr>pm_program_running := False, pm_current_program_id := None\<rparr>)
           in (True, snd (stop_all_zones s1)))"


subsection \<open>The environment of a run\<close>

text \<open>
  The executor gives up control only in \<open>await asyncio.sleep(1)\<close>. What the other tasks
  do during the sleep number \<open>t\<close> is the list \<open>events w t\<close>: requests of the HTTP
  adapter and auto-stop timers whose sleep is over. \<open>clock w t\<close> is
  \<open>time.localtime()\<close> after \<open>t\<close> sleeps (month, day of the year, and the two
  \<open>strftime\<close> renderings the code uses). \<open>day_of_year w d\<close> is the day of the year
  that lines 192-193 compute from a stored date by \<open>int\<close>, \<open>time.mktime\<close> and
  \<open>time.localtime\<close>, or \<open>None\<close> when that raises.
\<close>

datatype event = EStopProgram | EStartZone int int | EStopZone int | ETimer nat

record world =
  events :: "nat \<Rightarrow> event list"
  clock :: "nat \<Rightarrow> localtime"
  day_of_year :: "string \<Rightarrow> int option"

fun apply_event :: "event \<Rightarrow> kernel \<Rightarrow> kernel" where
  "apply_event EStopProgram s = snd (stop_program s)"
| "apply_event (EStartZone z d) s = snd (start_zone z d s)"
| "apply_event (EStopZone z) s = snd (stop_zone z s)"
| "apply_event (ETimer h) s = zone_timer_fires h s"

definition sleep1 :: "world \<Rightarrow> kernel \<Rightarrow> kernel" where
  "sleep1 w s = fold apply_event (events w (ticks s)) (s\<lparr>ticks := Suc (ticks s), now := now s + 1\<rparr>)"

definition local_time :: "world \<Rightarrow> kernel \<Rightarrow> localtime" where
  "local_time w s = clock w (ticks s)"

subsection \<open>Recurrence\<close>

definition months_map :: "string \<Rightarrow> nat option" where
  "months_map = map_of
     [(''Gennaio'', 1), (''Febbraio'', 2), (''Marzo'', 3), (''Aprile'', 4),
      (''Maggio'', 5), (''Giugno'', 6), (''Luglio'', 7), (''Agosto'', 8),
      (''Settembre'', 9), (''Ottobre'', 10), (''Novembre'', 11), (''Dicembre'', 12)]"

definition is_program_active_in_current_month :: "world \<Rightarrow> program \<Rightarrow> kernel \<Rightarrow> bool" where
  "is_program_active_in_current_month w program s =
     (lt_month (local_time w s) \<in> set (List.map_filter months_map (p_months program)))"

definition is_program_due_today :: "world \<Rightarrow> program \<Rightarrow> kernel \<Rightarrow> bool" where
  "is_program_due_today w program s =
     (let current_day_of_year = lt_yday (local_time w s);
          last_run_day = (case p_last_run_date program of
                            None \<Rightarrow> -1
                          | Some d \<Rightarrow> (case day_of_year w d of None \<Rightarrow> -1 | Some y \<Rightarrow> y));
          recurrence = p_recurrence program
      in if recurrence = ''giornaliero'' then last_run_day \<noteq> current_day_of_year
         else if recurrence = ''giorni_alterni'' then current_day_of_year - last_run_day \<ge> 2
         else if recurrence = ''personalizzata''
         then (let interval_days = (if p_interval_days program \<le> 0 then 1 else p_interval_days program)
               in current_day_of_year - last_run_day \<ge> interval_days)
         else False)"

text \<open>\<open>update_last_run_date\<close>, lines 394-408.\<close>

definition update_last_run_date :: "world \<Rightarrow> string \<Rightarrow> kernel \<Rightarrow> kernel" where
  "update_last_run_date w program_id s =
     (let current_date = lt_date (local_time w s) in
      case load_programs s of (programs, s1) \<Rightarrow>
        (case map_of programs program_id of
           Some p \<Rightarrow> snd (save_programs
                          (AList.update program_id (p\<lparr>p_last_run_date := Some current_date\<rparr>) programs) s1)
         | None \<Rightarrow> s1))"

subsection \<open>The executor\<close>

text \<open>
  The two polling loops of lines 282-285 and 298-301: \<open>n\<close> rounds, each leaving the loop
  when \<open>program_running\<close> (the global of \<open>program_manager.py\<close>) is clear and sleeping one
  second otherwise.
\<close>

fun wait_loop :: "world \<Rightarrow> nat \<Rightarrow> kernel \<Rightarrow> kernel" where
  "wait_loop w 0 s = s"
| "wait_loop w (Suc n) s = (if \<not> pm_program_running s then s else wait_loop w n (sleep1 w s))"

text \<open>
  The step loop of lines 259-301. \<open>delay\<close> is the \<open>activation_delay\<close> read once before
  the loop, \<open>n\<close> the number of steps, \<open>i\<close> the index of the first step of the list. A
  \<open>break\<close> ends the recursion, a \<open>continue\<close> goes on with the rest. The result is the
  exception that left the loop, if any, and the state at that point. \<open>step.get\<close> gives
  \<open>None\<close> (here \<open>JNull\<close>) for an absent \<open>zone_id\<close> and 1 for an absent
  \<open>duration\<close>. \<open>start_zone\<close> and \<open>stop_zone\<close> convert their arguments with
  \<open>int\<close> (lines 135-136 and 239, here done before the call of the model's
  \<open>start_zone\<close>, which takes integers); \<open>range(duration * 60)\<close> takes the value as
  the step holds it.
\<close>

fun run_steps ::
    "world \<Rightarrow> int \<Rightarrow> nat \<Rightarrow> nat \<Rightarrow> step list \<Rightarrow> kernel \<Rightarrow> py_error option \<times> kernel" where
  "run_steps w delay n i [] s = (None, s)"
| "run_steps w delay n i (st # rest) s =
     (if \<not> pm_program_running s then (None, s)
      else let zone_id = (case st_zone_id st of None \<Rightarrow> JNull | Some v \<Rightarrow> v);
               duration = (case st_duration st of None \<Rightarrow> JInt 1 | Some v \<Rightarrow> v)
           in if zone_id = JNull then run_steps w delay n (Suc i) rest s
              else (case py_int zone_id of
                      Inl e \<Rightarrow> (Some e, s)
                    | Inr z \<Rightarrow>
                       (case py_int duration of
                          Inl e \<Rightarrow> (Some e, s)
                        | Inr d \<Rightarrow>
                           (case start_zone z d s of
                              (False, s1) \<Rightarrow> run_steps w delay n (Suc i) rest s1
                            | (True, s1) \<Rightarrow>
                               (case range_bound duration of
                                  Inl e \<Rightarrow> (Some e, s1)
                                | Inr k \<Rightarrow>
                                    let s2 = wait_loop w (nat k) s1 in
                                    if \<not> pm_program_running s2 then (None, s2)
                                    else let s3 = snd (stop_zone z s2);
                                             s4 = (if delay > 0 \<and> int i < int n - 1
                                                   then wait_loop w (nat (delay * 60)) s3
                                                   else s3)
                                         in run_steps w delay n (Suc i) rest s4)))))"

text \<open>
  \<open>execute_program\<close>, lines 213-314, in its parts: what runs between the busy test and
  the step loop (lines 234-256); the step loop; what follows a loop that ends without an
  exception (line 303, then the \<open>finally\<close> block); the \<open>finally\<close> block of lines
  310-314 alone, which is all that follows an exception (lines 306-309 log and return
  \<open>False\<close>).
\<close>

definition program_id_of :: "program \<Rightarrow> string" where
  "program_id_of program = (case p_id program of None \<Rightarrow> ''0'' | Some i \<Rightarrow> i)"

definition execute_program_begin :: "world \<Rightarrow> program \<Rightarrow> bool \<Rightarrow> kernel \<Rightarrow> kernel" where
  "execute_program_begin w program manual s0 =
     (let s1 = (if \<not> manual \<and> get_active_zones_count s0 > 0
                then sleep1 w (snd (stop_all_zones s0)) else s0);
          s2 = snd (stop_all_zones s1)
      in save_program_state
           (s2\<lparr>pm_program_running := True, pm_current_program_id := Some (program_id_of program)\<rparr>))"

definition execute_program_finally :: "kernel \<Rightarrow> kernel" where
  "execute_program_finally s5 =
     (let s6 = save_program_state (s5\<lparr>pm_program_running := False, pm_current_program_id := None\<rparr>)
      in snd (stop_all_zones s6))"

definition execute_program_end :: "world \<Rightarrow> program \<Rightarrow> kernel \<Rightarrow> kernel" where
  "execute_program_end w program s4 =
     execute_program_finally (update_last_run_date w (program_id_of program) s4)"

definition execute_program :: "world \<Rightarrow> program \<Rightarrow> bool \<Rightarrow> kernel \<Rightarrow> bool \<times> kernel" where
  "execute_program w program manual s =
     (let s0 = import_program_state s in
      if pm_program_running s0 then (False, s0)
      else let s3 = execute_program_begin w program manual s0
           in (case run_steps w (activation_delay s3) (length (p_steps program)) 0
                       (p_steps program) s3 of
                 (None, s4) \<Rightarrow> (True, execute_program_end w program s4)
               | (Some e, s4) \<Rightarrow> (False, execute_program_finally s4)))"

subsection \<open>The scheduler tick\<close>

text \<open>
  \<open>check_programs\<close>, lines 357-392. The time of day is read once, before the loop; the
  loop goes through the dictionary as loaded, and awaits each run before it goes on.
  \<open>program_fires\<close> is the condition of lines 377-379.
\<close>

definition program_fires :: "world \<Rightarrow> string \<Rightarrow> program \<Rightarrow> kernel \<Rightarrow> bool" where
  "program_fires w current_time_str program s =
     (current_time_str = p_activation_time program
      \<and> is_program_active_in_current_month w program s
      \<and> is_program_due_today w program s)"

fun check_each :: "world \<Rightarrow> string \<Rightarrow> (string \<times> program) list \<Rightarrow> kernel \<Rightarrow> kernel" where
  "check_each w current_time_str [] s = s"
| "check_each w current_time_str ((program_id, program) # rest) s =
     (if program_fires w current_time_str program s
      then (if pm_program_running s then check_each w current_time_str rest s
            else (case execute_program w program False s of
                    (True, s') \<Rightarrow> check_each w current_time_str rest (update_last_run_date w program_id s')
                  | (False, s') \<Rightarrow> check_each w current_time_str rest s'))
      else check_each w current_time_str rest s)"

definition check_programs :: "world \<Rightarrow> kernel \<Rightarrow> kernel" where
  "check_programs w s =
     (if \<not> automatic_programs_enabled s then s
      else case load_programs s of (programs, s1) \<Rightarrow>
        if programs = [] then s1
        else check_each w (lt_hm (local_time w s1)) programs s1)"

section \<open>web\_server.py: the program routes\<close>

text \<open>
  A response is its HTTP status and the \<open>success\<close> member of its JSON body. An
  exception in a route is caught by the route and answered with status 500.
\<close>

record reply =
  status :: nat
  success :: bool







section \<open>settings\_manager.py\<close>

text \<open>
  A settings document is the JSON value that \<open>ujson\<close> reads and writes; an object keeps
  its members in order. The flash holds \<open>/data/user_settings.json\<close>.
\<close>

record flash =
  user_settings_file :: "json stored"
  flash_writable :: bool

definition factory_zone :: "int \<Rightarrow> int \<Rightarrow> string \<Rightarrow> json" where
  "factory_zone i p n =
     JObj [(''id'', JInt i), (''status'', JStr ''show''), (''pin'', JInt p), (''name'', JStr n)]"

definition FACTORY_SETTINGS :: "(string \<times> json) list" where
  "FACTORY_SETTINGS =
     [(''client_enabled'', JBool False),
      (''wifi'', JObj [(''ssid'', JStr []), (''password'', JStr [])]),
      (''ap'', JObj [(''ssid'', JStr ''IrrigationSystem''), (''password'', JStr ''12345678'')]),
      (''zones'', JList
         [factory_zone 0 14 ''Zona 1'', factory_zone 1 15 ''Zona 2'',
          factory_zone 2 16 ''Zona 3'', factory_zone 3 17 ''Zona 4'',
          factory_zone 4 18 ''Zona 5'', factory_zone 5 19 ''Zona 6'',
          factory_zone 6 20 ''Zona 7'', factory_zone 7 21 ''Zona 8'']),
      (''max_active_zones'', JInt 3),
      (''activation_delay'', JInt 5),
      (''safety_relay'', JObj [(''pin'', JInt 13)]),
      (''automatic_programs_enabled'', JBool False),
      (''max_zone_duration'', JInt 180)]"

text \<open>\<open>d.setdefault(k, v)\<close>, and \<open>if k not in d: d[k] = v\<close>, which is the same update.\<close>

definition setdefault :: "string \<Rightarrow> json \<Rightarrow> (string \<times> json) list \<Rightarrow> (string \<times> json) list" where
  "setdefault k v d = (if k \<in> fst ` set d then d else AList.update k v d)"

text \<open>
  The zone loop of \<open>save_user_settings\<close>, lines 113-122. For an entry that is an object
  the four tests fill what is missing. The tests \<open>'id' not in zone\<close> are substring tests
  on a string and membership tests on a list, and the assignment \<open>zone['id'] = i\<close>
  raises TypeError on both; on a number, a boolean or \<open>null\<close> the test itself raises.
\<close>

fun is_prefix :: "string \<Rightarrow> string \<Rightarrow> bool" where
  "is_prefix [] ys = True"
| "is_prefix (x # xs) [] = False"
| "is_prefix (x # xs) (y # ys) = (x = y \<and> is_prefix xs ys)"

fun contains :: "string \<Rightarrow> string \<Rightarrow> bool" where
  "contains [] t = (t = [])"
| "contains (c # cs) t = (is_prefix t (c # cs) \<or> contains cs t)"

definition zone_keys :: "string list" where
  "zone_keys = [''id'', ''status'', ''pin'', ''name'']"

definition normalise_zone :: "nat \<Rightarrow> (string \<times> json) list \<Rightarrow> (string \<times> json) list" where
  "normalise_zone i zone =
     setdefault ''name'' (JStr (''Zona '' @ str_of_nat (i + 1)))
       (setdefault ''pin'' (JInt (14 + int i))
          (setdefault ''status'' (JStr ''show'')
             (setdefault ''id'' (JInt (int i)) zone)))"

definition normalise_entry :: "nat \<Rightarrow> json \<Rightarrow> py_error + json" where
  "normalise_entry i zone =
     (case zone of
        JObj z \<Rightarrow> Inr (JObj (normalise_zone i z))
      | JStr t \<Rightarrow> if list_all (contains t) zone_keys then Inr zone else Inl TypeError
      | JList l \<Rightarrow> if list_all (\<lambda>k. JStr k \<in> set l) zone_keys then Inr zone else Inl TypeError
      | _ \<Rightarrow> Inl TypeError)"

fun normalise_entries :: "nat \<Rightarrow> json list \<Rightarrow> py_error + json list" where
  "normalise_entries i [] = Inr []"
| "normalise_entries i (z # zs) =
     (case normalise_entry i z of
        Inl e \<Rightarrow> Inl e
      | Inr z' \<Rightarrow> (case normalise_entries (Suc i) zs of
                     Inl e \<Rightarrow> Inl e
                   | Inr zs' \<Rightarrow> Inr (z' # zs')))"

text \<open>
  \<open>enumerate(settings['zones'])\<close>: a list gives its elements, a string its characters,
  an object its keys (neither can be changed by the loop); anything else is not
  iterable.
\<close>

definition normalise_zones :: "json \<Rightarrow> py_error + json" where
  "normalise_zones zones =
     (case zones of
        JList zs \<Rightarrow> (case normalise_entries 0 zs of Inl e \<Rightarrow> Inl e | Inr zs' \<Rightarrow> Inr (JList zs'))
      | JStr t \<Rightarrow> (case normalise_entries 0 (map (\<lambda>c. JStr [c]) t) of
                    Inl e \<Rightarrow> Inl e | Inr _ \<Rightarrow> Inr zones)
      | JObj d \<Rightarrow> (case normalise_entries 0 (map (\<lambda>(k, v). JStr k) d) of
                    Inl e \<Rightarrow> Inl e | Inr _ \<Rightarrow> Inr zones)
      | _ \<Rightarrow> Inl TypeError)"

text \<open>
  \<open>save_user_settings\<close>, lines 89-135. A TypeError of the zone loop is not caught by
  \<open>except OSError\<close> and leaves the function; a failed write returns \<open>False\<close>.
\<close>

definition fill_factory_keys :: "(string \<times> json) list \<Rightarrow> (string \<times> json) list" where
  "fill_factory_keys settings = fold (\<lambda>(key, v) d. setdefault key v d) FACTORY_SETTINGS settings"

definition write_settings :: "(string \<times> json) list \<Rightarrow> flash \<Rightarrow> (py_error + bool) \<times> flash" where
  "write_settings settings st =
     (if flash_writable st then (Inr True, st\<lparr>user_settings_file := Content (JObj settings)\<rparr>)
      else (Inr False, st))"

definition save_user_settings :: "json \<Rightarrow> flash \<Rightarrow> (py_error + bool) \<times> flash" where
  "save_user_settings settings st =
     (case settings of
        JObj d \<Rightarrow>
          let d1 = fill_factory_keys d in
          (case map_of d1 ''zones'' of
             Some zones \<Rightarrow>
               (case normalise_zones zones of
                  Inl e \<Rightarrow> (Inl e, st)
                | Inr zones' \<Rightarrow> write_settings (AList.update ''zones'' zones' d1) st)
           | None \<Rightarrow> write_settings d1 st)
      | _ \<Rightarrow> (Inr False, st))"

text \<open>\<open>factory_reset\<close>, lines 182-197: every exception is caught.\<close>

definition factory_reset :: "flash \<Rightarrow> bool \<times> flash" where
  "factory_reset st =
     (case save_user_settings (JObj FACTORY_SETTINGS) st of
        (Inr _, st') \<Rightarrow> (True, st')
      | (Inl _, st') \<Rightarrow> (False, st'))"

text \<open>
  \<open>load_user_settings\<close>, lines 55-87. A document that is not an object has no
  \<open>setdefault\<close>; the AttributeError is not caught. A missing or invalid file is
  replaced by the factory settings.
\<close>

definition load_user_settings :: "flash \<Rightarrow> (py_error + (string \<times> json) list) \<times> flash" where
  "load_user_settings st =
     (case user_settings_file st of
        Content (JObj settings) \<Rightarrow>
          (Inr (setdefault ''max_zone_duration'' (JInt 180)
               (setdefault ''client_enabled'' (JBool False)
               (setdefault ''automatic_programs_enabled'' (JBool False)
               (setdefault ''wifi'' (JObj [(''ssid'', JStr []), (''password'', JStr [])])
               (setdefault ''ap'' (JObj [(''ssid'', JStr ''IrrigationSystem''),
                                        (''password'', JStr ''12345678'')])
               (setdefault ''safety_relay'' (JObj [(''pin'', JInt 13)])
               (setdefault ''activation_delay'' (JInt 5)
               (setdefault ''max_active_zones'' (JInt 3)
               (setdefault ''zones'' (the (map_of FACTORY_SETTINGS ''zones'')) settings))))))))),
           st)
      | Content _ \<Rightarrow> (Inl AttributeError, st)
      | _ \<Rightarrow> (Inr FACTORY_SETTINGS, snd (factory_reset st)))"

section \<open>Example configurations\<close>

text \<open>
  The kernel after boot with the factory zones (zones 0 to 7 on pins 14 to 21, the
  safety relay on pin 13, every relay de-asserted), on 15 June 2024 at 06:00.
\<close>

definition mk_pin :: "int \<Rightarrow> pin" where
  "mk_pin n = \<lparr>pin_no = n, level = 1, faulty = False\<rparr>"

definition idle_kernel :: kernel where
  "idle_kernel =
     \<lparr>ps_program_running = False, ps_current_program_id = None,
      pm_program_running = False, pm_current_program_id = None,
      state_file = Content (False, None),
      active_zones = [],
      zone_pins = [(0, mk_pin 14), (1, mk_pin 15), (2, mk_pin 16), (3, mk_pin 17),
                   (4, mk_pin 18), (5, mk_pin 19), (6, mk_pin 20), (7, mk_pin 21)],
      safety_relay = Some (mk_pin 13),
      timers = [],
      max_zone_duration = 180, max_active_zones = 3, activation_delay = 5,
      automatic_programs_enabled = True,
      program_file = Content [], writable = True, now = 0, ticks = 0\<rparr>"

definition june15 :: localtime where
  "june15 = \<lparr>lt_month = 6, lt_yday = 167, lt_hm = ''06:00'', lt_date = ''2024-06-15''\<rparr>"

text \<open>A world in which nothing else happens, and one with a stop request in sleep 30.\<close>

definition quiet_world :: world where
  "quiet_world = \<lparr>events = (\<lambda>t. []), clock = (\<lambda>t. june15), day_of_year = (\<lambda>d. None)\<rparr>"

definition cancelling_world :: world where
  "cancelling_world =
     \<lparr>events = (\<lambda>t. if t = 30 then [EStopProgram] else []),
      clock = (\<lambda>t. june15), day_of_year = (\<lambda>d. None)\<rparr>"

definition prog_a :: program where
  "prog_a =
     \<lparr>p_id = Some ''1'', p_name = Some ''A'', p_months = [''Giugno''],
      p_recurrence = ''giornaliero'', p_interval_days = 1, p_activation_time = ''06:00'',
      p_steps = [\<lparr>st_zone_id = Some (JInt 0), st_duration = Some (JInt 1)\<rparr>],
      p_last_run_date = None\<rparr>"

text \<open>Program A with a step whose \<open>duration\<close> is the string \<open>"2"\<close>.\<close>

definition prog_text_duration :: program where
  "prog_text_duration =
     prog_a\<lparr>p_steps := [\<lparr>st_zone_id = Some (JInt 0), st_duration = Some (JStr ''2'')\<rparr>]\<rparr>"

text \<open>
  Zone 0 running for five minutes; the same with a zone pin whose write raises; and a
  kernel without a safety relay (\<open>initialize_pins\<close> leaves \<open>safety_relay\<close> at
  \<open>None\<close> when the settings give no pin for it or when configuring the pin fails).
\<close>

definition watering_kernel :: kernel where
  "watering_kernel = snd (start_zone 0 5 idle_kernel)"

definition stuck_valve_kernel :: kernel where
  "stuck_valve_kernel =
     watering_kernel\<lparr>zone_pins :=
       AList.update 0 \<lparr>pin_no = 14, level = 0, faulty = True\<rparr> (zone_pins watering_kernel)\<rparr>"

definition no_relay_kernel :: kernel where
  "no_relay_kernel = idle_kernel\<lparr>safety_relay := None\<rparr>"

text \<open>The idle kernel with program A stored.\<close>

definition one_program_kernel :: kernel where
  "one_program_kernel = idle_kernel\<lparr>program_file := Content [(''1'', prog_a)]\<rparr>"










text \<open>
  The kernel in the middle of a run: \<open>execute_program\<close> has passed its busy test and
  has run lines 234-256 for program A, started by hand.
\<close>

definition running_kernel :: kernel where
  "running_kernel = execute_program_begin quiet_world prog_a True (import_program_state idle_kernel)"

text \<open>
  A settings dictionary with two of the nine keys and two incomplete zone entries; a
  flash without a settings file, and one that holds this dictionary.
\<close>

definition partial_settings :: "(string \<times> json) list" where
  "partial_settings =
     [(''max_active_zones'', JInt 2),
      (''zones'', JList [JObj [(''name'', JStr ''Orto'')], JObj []])]"

definition empty_flash :: flash where
  "empty_flash = \<lparr>user_settings_file = Missing, flash_writable = True\<rparr>"

definition partial_flash :: flash where
  "partial_flash = \<lparr>user_settings_file = Content (JObj partial_settings), flash_writable = True\<rparr>"

section \<open>The safety relay and the active-zone table\<close>

text \<open>
  The invariant of the safety relay, and the condition under which the actuator keeps
  it: a safety relay is configured and no write to a pin raises.
\<close>

definition relay_matches_table :: "kernel \<Rightarrow> bool" where
  "relay_matches_table s = (relay_on s = (active_zones s \<noteq> []))"

definition gpio_ok :: "kernel \<Rightarrow> bool" where
  "gpio_ok s = (list_all (\<lambda>(z, p). \<not> faulty p) (zone_pins s)
                \<and> (case safety_relay s of None \<Rightarrow> False | Some r \<Rightarrow> \<not> faulty r))"

section \<open>Properties of the zone actuator\<close>

lemma list_all_update:
  "list_all P xs \<Longrightarrow> P (k, v) \<Longrightarrow> list_all P (AList.update k v xs)"
  by (induction xs) auto

lemma map_of_list_all:
  "list_all (\<lambda>(z, p). Q p) xs \<Longrightarrow> map_of xs k = Some v \<Longrightarrow> Q v"
  by (induction xs) (auto split: if_splits)

lemma length_update_present:
  "map_of al k = Some x \<Longrightarrow> length (AList.update k v al) = length al"
  by (induction al) (auto split: if_splits)

lemma length_cancel_task: "length (cancel_task h ts) = length ts"
  by (simp add: cancel_task_def)

lemma cancel_task_not_pending:
  "h < length ts \<Longrightarrow> t_state (cancel_task h ts ! h) \<noteq> Pending"
  by (simp add: cancel_task_def)

lemma start_zone_keeps:
  assumes "gpio_ok s" "relay_matches_table s"
  shows "gpio_ok (snd (start_zone z d s)) \<and> relay_matches_table (snd (start_zone z d s))"
  using assms
  by (auto simp: start_zone_def gpio_ok_def relay_matches_table_def relay_on_def asserted_def
        pin_value_def Let_def list_all_update
        split: option.splits dest: map_of_list_all)

lemma stop_zone_keeps:
  assumes "gpio_ok s" "relay_matches_table s"
  shows "gpio_ok (snd (stop_zone z s)) \<and> relay_matches_table (snd (stop_zone z s))"
  using assms
  by (auto simp: stop_zone_def gpio_ok_def relay_matches_table_def relay_on_def asserted_def
        pin_value_def Let_def list_all_update
        split: option.splits dest: map_of_list_all)

lemma watering_kernel_eq:
  "watering_kernel =
     idle_kernel\<lparr>safety_relay := Some \<lparr>pin_no = 13, level = 0, faulty = False\<rparr>,
       zone_pins := AList.update 0 \<lparr>pin_no = 14, level = 0, faulty = False\<rparr> (zone_pins idle_kernel),
       timers := [\<lparr>t_zone = 0, t_duration = 5, t_state = Pending\<rparr>],
       active_zones := [(0, \<lparr>az_start_time = 0, az_duration = 5, az_task = 0\<rparr>)]\<rparr>"
  by (simp add: watering_kernel_def start_zone_def idle_kernel_def mk_pin_def pin_value_def)

subsection \<open>Claim C3\<close>

text \<open>
  C3 (as amended). For every configured zone id: when the GPIO write that de-asserts the
  zone's pin fails, \<open>stop_zone\<close> returns failure at once and leaves the whole state,
  the active-zone table included, as it was; when the write succeeds, the zone has no
  entry in the active-zone table after the call.
\<close>

theorem stop_zone_pin_failure:
  assumes "map_of (zone_pins s) z = Some p"
  shows "(faulty p \<longrightarrow> stop_zone z s = (False, s))
       \<and> (\<not> faulty p \<longrightarrow> z \<notin> fst ` set (active_zones (snd (stop_zone z s))))"
  using assms
  by (simp add: stop_zone_def pin_value_def Let_def delete_notin_dom map_of_eq_None_iff
        split: option.splits)

theorem stop_zone_pin_failure_witness:
  "stop_zone 0 stuck_valve_kernel = (False, stuck_valve_kernel)
   \<and> 0 \<notin> fst ` set (active_zones (snd (stop_zone 0 watering_kernel)))"
proof -
  have a: "map_of (zone_pins stuck_valve_kernel) 0 = Some \<lparr>pin_no = 14, level = 0, faulty = True\<rparr>"
    by (simp add: stuck_valve_kernel_def update_conv')
  have b: "map_of (zone_pins watering_kernel) 0 = Some \<lparr>pin_no = 14, level = 0, faulty = False\<rparr>"
    by (simp add: watering_kernel_eq update_conv')
  show ?thesis
    using stop_zone_pin_failure [OF a] stop_zone_pin_failure [OF b] by simp
qed

text \<open>
  The claim as stated fails: zone 0 is configured and in the table, the write to its pin
  raises, and after \<open>stop_zone\<close> the table still has the entry.
\<close>

theorem stop_zone_pin_failure_counterexample:
  "map_of (zone_pins stuck_valve_kernel) 0 = Some \<lparr>pin_no = 14, level = 0, faulty = True\<rparr>
   \<and> fst (stop_zone 0 stuck_valve_kernel) = False
   \<and> 0 \<in> fst ` set (active_zones (snd (stop_zone 0 stuck_valve_kernel)))"
  by (simp add: stuck_valve_kernel_def watering_kernel_eq update_conv' stop_zone_def
        pin_value_def idle_kernel_def)

subsection \<open>Claim C9\<close>

text \<open>
  C9. For a zone that is already active, a successful \<open>start_zone z d\<close> cancels the
  zone's previous timer (it is no longer pending), replaces the zone's record by one
  with the current time, the new duration and a fresh pending timer, and leaves the
  number of active zones, every other zone's record and pin object, and the safety
  relay as they were.
\<close>

theorem restart_active_zone:
  assumes "map_of (active_zones s) z = Some old"
      and "start_zone z d s = (True, s')"
  shows "(az_task old < length (timers s) \<longrightarrow> t_state (timers s' ! az_task old) \<noteq> Pending)
       \<and> map_of (active_zones s') z =
            Some \<lparr>az_start_time = now s, az_duration = d, az_task = length (timers s)\<rparr>
       \<and> timers s' ! length (timers s) = \<lparr>t_zone = z, t_duration = d, t_state = Pending\<rparr>
       \<and> length (active_zones s') = length (active_zones s)
       \<and> (\<forall>z'. z' \<noteq> z \<longrightarrow> map_of (active_zones s') z' = map_of (active_zones s) z'
                        \<and> map_of (zone_pins s') z' = map_of (zone_pins s) z')
       \<and> safety_relay s' = safety_relay s"
  using assms
  by (auto simp: start_zone_def pin_value_def Let_def update_conv' length_update_present
        length_cancel_task cancel_task_not_pending nth_append
        split: option.splits if_splits)

theorem restart_active_zone_witness:
  "fst (start_zone 0 10 watering_kernel)
   \<and> t_state (timers (snd (start_zone 0 10 watering_kernel)) ! 0) \<noteq> Pending
   \<and> map_of (active_zones (snd (start_zone 0 10 watering_kernel))) 0 =
        Some \<lparr>az_start_time = 0, az_duration = 10, az_task = 1\<rparr>
   \<and> length (active_zones (snd (start_zone 0 10 watering_kernel))) = 1
   \<and> map_of (zone_pins (snd (start_zone 0 10 watering_kernel))) 1 = Some (mk_pin 15)
   \<and> safety_relay (snd (start_zone 0 10 watering_kernel)) = safety_relay watering_kernel"
proof -
  have a: "map_of (active_zones watering_kernel) 0 =
             Some \<lparr>az_start_time = 0, az_duration = 5, az_task = 0\<rparr>"
    by (simp add: watering_kernel_eq)
  have ok: "fst (start_zone 0 10 watering_kernel)"
    by (simp add: watering_kernel_eq start_zone_def idle_kernel_def pin_value_def update_conv')
  then have b: "start_zone 0 10 watering_kernel = (True, snd (start_zone 0 10 watering_kernel))"
    by (cases "start_zone 0 10 watering_kernel") simp
  have c: "timers watering_kernel = [\<lparr>t_zone = 0, t_duration = 5, t_state = Pending\<rparr>]"
        "now watering_kernel = 0" "length (active_zones watering_kernel) = 1"
        "map_of (zone_pins watering_kernel) 1 = Some (mk_pin 15)"
    by (simp_all add: watering_kernel_eq idle_kernel_def update_conv')
  show ?thesis
    using restart_active_zone [OF a b] ok c by simp
qed

subsection \<open>Claim C2\<close>

text \<open>
  The invariant together with its condition, and the operations that keep it: the
  actuator's own, the events of the environment, the sleeps and loops of the executor,
  the executor and the scheduler tick.
\<close>

definition relay_inv :: "kernel \<Rightarrow> bool" where
  "relay_inv s = (gpio_ok s \<and> relay_matches_table s)"

lemma relay_inv_frame:
  "zone_pins s' = zone_pins s \<Longrightarrow> safety_relay s' = safety_relay s \<Longrightarrow>
   active_zones s' = active_zones s \<Longrightarrow> relay_inv s' = relay_inv s"
  by (simp add: relay_inv_def gpio_ok_def relay_matches_table_def relay_on_def)

lemma start_zone_inv: "relay_inv s \<Longrightarrow> relay_inv (snd (start_zone z d s))"
  using start_zone_keeps by (simp add: relay_inv_def)

lemma stop_zone_inv: "relay_inv s \<Longrightarrow> relay_inv (snd (stop_zone z s))"
  using stop_zone_keeps by (simp add: relay_inv_def)

lemma stop_each_inv: "relay_inv s \<Longrightarrow> relay_inv (snd (stop_each zs b s))"
proof (induction zs arbitrary: b s)
  case Nil
  then show ?case by simp
next
  case (Cons z zs)
  obtain ok s' where sz: "stop_zone z s = (ok, s')" by (cases "stop_zone z s")
  from Cons.prems have "relay_inv (snd (stop_zone z s))" by (rule stop_zone_inv)
  then show ?case
    using Cons.IH sz by simp
qed

lemma stop_all_zones_inv: "relay_inv s \<Longrightarrow> relay_inv (snd (stop_all_zones s))"
  by (simp add: stop_all_zones_def stop_each_inv)

lemma save_program_state_inv: "relay_inv (save_program_state s) = relay_inv s"
  by (rule relay_inv_frame) (simp_all add: save_program_state_def)

lemma import_program_state_inv: "relay_inv (import_program_state s) = relay_inv s"
  by (rule relay_inv_frame) (simp_all add: import_program_state_def)

lemma set_running_inv:
  "relay_inv (s\<lparr>pm_program_running := b, pm_current_program_id := c\<rparr>) = relay_inv s"
  by (rule relay_inv_frame) simp_all

lemma stop_program_inv: "relay_inv s \<Longrightarrow> relay_inv (snd (stop_program s))"
  by (simp add: stop_program_def Let_def stop_all_zones_inv import_program_state_inv
        save_program_state_inv set_running_inv)

lemma zone_timer_fires_inv: "relay_inv s \<Longrightarrow> relay_inv (zone_timer_fires h s)"
proof -
  assume a: "relay_inv s"
  have "relay_inv (s\<lparr>timers := ts\<rparr>)" for ts
    using a by (simp add: relay_inv_frame [of "s\<lparr>timers := ts\<rparr>" s])
  then show ?thesis
    using a by (simp add: zone_timer_fires_def Let_def stop_zone_inv)
qed

lemma apply_event_inv: "relay_inv s \<Longrightarrow> relay_inv (apply_event e s)"
  by (cases e) (simp_all add: stop_program_inv start_zone_inv stop_zone_inv zone_timer_fires_inv)

lemma fold_apply_event_inv: "relay_inv s \<Longrightarrow> relay_inv (fold apply_event es s)"
  by (induction es arbitrary: s) (simp_all add: apply_event_inv)

lemma sleep1_inv: "relay_inv s \<Longrightarrow> relay_inv (sleep1 w s)"
proof -
  assume a: "relay_inv s"
  have "relay_inv (s\<lparr>ticks := Suc (ticks s), now := now s + 1\<rparr>)"
    using a by (simp add: relay_inv_frame [of "s\<lparr>ticks := Suc (ticks s), now := now s + 1\<rparr>" s])
  then show ?thesis by (simp add: sleep1_def fold_apply_event_inv)
qed

lemma wait_loop_inv: "relay_inv s \<Longrightarrow> relay_inv (wait_loop w n s)"
  by (induction n arbitrary: s) (simp_all add: sleep1_inv)

text \<open>
  The step loop keeps every property of the state that \<open>start_zone\<close>, \<open>stop_zone\<close> and
  the polling loops keep, whether it ends normally or by an exception.
\<close>

lemma run_steps_preserves:
  assumes sz: "\<And>z d x. P x \<Longrightarrow> P (snd (start_zone z d x))"
      and tz: "\<And>z x. P x \<Longrightarrow> P (snd (stop_zone z x))"
      and wl: "\<And>k x. P x \<Longrightarrow> P (wait_loop w k x)"
  shows "P s \<Longrightarrow> P (snd (run_steps w delay n i steps s))"
proof (induction steps arbitrary: i s)
  case Nil
  then show ?case by simp
next
  case (Cons st rest)
  define zone_id where "zone_id = (case st_zone_id st of None \<Rightarrow> JNull | Some v \<Rightarrow> v)"
  define duration where "duration = (case st_duration st of None \<Rightarrow> JInt 1 | Some v \<Rightarrow> v)"
  note unfold = Let_def zone_id_def [symmetric] duration_def [symmetric]
  show ?case
  proof (cases "pm_program_running s \<and> zone_id \<noteq> JNull")
    case False
    then show ?thesis
      using Cons.prems Cons.IH [OF Cons.prems] by (auto simp add: unfold)
  next
    case go: True
    show ?thesis
    proof (cases "py_int zone_id")
      case (Inl e)
      then show ?thesis using go Cons.prems by (simp add: unfold)
    next
      case z: (Inr z)
      show ?thesis
      proof (cases "py_int duration")
        case (Inl e)
        then show ?thesis using go z Cons.prems by (simp add: unfold)
      next
        case d: (Inr d)
        obtain ok s1 where st: "start_zone z d s = (ok, s1)" by (cases "start_zone z d s")
        have p1: "P s1" using sz [OF Cons.prems, of z d] st by simp
        show ?thesis
        proof (cases ok)
          case False
          then show ?thesis using go z d st Cons.IH [OF p1] by (simp add: unfold)
        next
          case ok: True
          show ?thesis
          proof (cases "range_bound duration")
            case (Inl e)
            then show ?thesis using go z d st ok p1 by (simp add: unfold)
          next
            case k: (Inr k)
            define s2 where "s2 = wait_loop w (nat k) s1"
            define s3 where "s3 = snd (stop_zone z s2)"
            have p2: "P s2" unfolding s2_def by (rule wl [OF p1])
            have p3: "P s3" unfolding s3_def by (rule tz [OF p2])
            have p4: "P (wait_loop w j s3)" for j by (rule wl [OF p3])
            show ?thesis
              using go z d st ok k p2 Cons.IH [OF p3] Cons.IH [OF p4]
              by (simp add: unfold s2_def [symmetric] s3_def [symmetric])
          qed
        qed
      qed
    qed
  qed
qed

lemma run_steps_inv: "relay_inv s \<Longrightarrow> relay_inv (snd (run_steps w delay n i steps s))"
  by (rule run_steps_preserves [of relay_inv]) (simp_all add: start_zone_inv stop_zone_inv wait_loop_inv)

lemma save_programs_inv: "relay_inv (snd (save_programs ps s)) = relay_inv s"
  by (rule relay_inv_frame) (simp_all add: save_programs_def)

lemma load_programs_inv: "relay_inv (snd (load_programs s)) = relay_inv s"
  by (rule relay_inv_frame) (simp_all add: load_programs_def save_programs_def split: stored.splits)

lemma update_last_run_date_inv: "relay_inv (update_last_run_date w pid s) = relay_inv s"
  by (rule relay_inv_frame)
     (simp_all add: update_last_run_date_def load_programs_def save_programs_def Let_def
        split: stored.splits option.splits)

lemma execute_program_begin_inv:
  "relay_inv s \<Longrightarrow> relay_inv (execute_program_begin w p m s)"
  by (simp add: execute_program_begin_def Let_def save_program_state_inv set_running_inv
        stop_all_zones_inv sleep1_inv)

lemma execute_program_finally_inv:
  "relay_inv s \<Longrightarrow> relay_inv (execute_program_finally s)"
  by (simp add: execute_program_finally_def Let_def save_program_state_inv set_running_inv
        stop_all_zones_inv)

lemma execute_program_end_inv:
  "relay_inv s \<Longrightarrow> relay_inv (execute_program_end w p s)"
  by (simp add: execute_program_end_def execute_program_finally_inv update_last_run_date_inv)

lemma execute_program_inv: "relay_inv s \<Longrightarrow> relay_inv (snd (execute_program w p m s))"
proof -
  assume a: "relay_inv s"
  define s3 where "s3 = execute_program_begin w p m (import_program_state s)"
  obtain e s4 where r: "run_steps w (activation_delay s3) (length (p_steps p)) 0 (p_steps p) s3 = (e, s4)"
    by (cases "run_steps w (activation_delay s3) (length (p_steps p)) 0 (p_steps p) s3")
  have i0: "relay_inv (import_program_state s)" using a by (simp add: import_program_state_inv)
  have i3: "relay_inv s3" unfolding s3_def by (rule execute_program_begin_inv [OF i0])
  have i4: "relay_inv s4"
    using run_steps_inv [OF i3, of w "activation_delay s3" "length (p_steps p)" 0 "p_steps p"] r
    by simp
  show ?thesis
    using i0 i4 r
    by (cases e)
       (simp_all add: execute_program_def Let_def s3_def [symmetric] execute_program_end_inv
          execute_program_finally_inv)
qed

lemma check_each_inv: "relay_inv s \<Longrightarrow> relay_inv (check_each w hm ps s)"
proof (induction ps arbitrary: s hm)
  case Nil
  then show ?case by simp
next
  case (Cons a ps)
  obtain pid p where a: "a = (pid, p)" by (cases a)
  obtain ok s' where ex: "execute_program w p False s = (ok, s')"
    by (cases "execute_program w p False s")
  have "relay_inv s'" using execute_program_inv [OF Cons.prems, of w p False] ex by simp
  then show ?case
    using Cons a ex by (cases ok) (simp_all add: update_last_run_date_inv)
qed

lemma check_programs_inv: "relay_inv s \<Longrightarrow> relay_inv (check_programs w s)"
proof -
  assume a: "relay_inv s"
  obtain ps s1 where l: "load_programs s = (ps, s1)" by (cases "load_programs s")
  have "relay_inv s1" using load_programs_inv [of s] l a by simp
  then show ?thesis using a l by (simp add: check_programs_def check_each_inv)
qed

lemma start_zone_table_not_emptied:
  "active_zones s \<noteq> [] \<Longrightarrow> active_zones (snd (start_zone z d s)) \<noteq> []"
  by (simp add: start_zone_def pin_value_def Let_def split: option.splits)

lemma stop_zone_table_not_filled:
  "active_zones s = [] \<Longrightarrow> active_zones (snd (stop_zone z s)) = []"
  by (simp add: stop_zone_def pin_value_def Let_def split: option.splits)

text \<open>
  C2 (as amended). Provided a safety relay is configured and no write to a pin raises,
  \<open>start_zone\<close>, \<open>stop_zone\<close>, \<open>stop_all_zones\<close>, every sequence of events of the
  environment, a whole program run and a whole scheduler tick each take a state in which
  the safety relay is asserted if and only if the active-zone table is non-empty to
  another such state; \<open>start_zone\<close> changes the relay's level exactly when the table
  goes from empty to non-empty, and \<open>stop_zone\<close> exactly when it goes from non-empty
  to empty.
\<close>

theorem relay_invariant_kept:
  assumes "gpio_ok s" and "relay_matches_table s"
  shows "relay_matches_table (snd (start_zone z d s))
       \<and> relay_matches_table (snd (stop_zone z s))
       \<and> ((relay_on (snd (start_zone z d s)) \<noteq> relay_on s)
            = (active_zones s = [] \<and> active_zones (snd (start_zone z d s)) \<noteq> []))
       \<and> ((relay_on (snd (stop_zone z s)) \<noteq> relay_on s)
            = (active_zones s \<noteq> [] \<and> active_zones (snd (stop_zone z s)) = []))
       \<and> relay_matches_table (snd (stop_all_zones s))
       \<and> relay_matches_table (fold apply_event es s)
       \<and> relay_matches_table (snd (execute_program w p m s))
       \<and> relay_matches_table (check_programs w s)"
proof -
  have i: "relay_inv s" using assms by (simp add: relay_inv_def)
  have a: "relay_matches_table (snd (start_zone z d s))"
    using start_zone_inv [OF i] by (simp add: relay_inv_def)
  have b: "relay_matches_table (snd (stop_zone z s))"
    using stop_zone_inv [OF i] by (simp add: relay_inv_def)
  have c: "relay_matches_table (snd (stop_all_zones s))"
    using stop_all_zones_inv [OF i] by (simp add: relay_inv_def)
  have e: "relay_matches_table (fold apply_event es s)"
    using fold_apply_event_inv [OF i] by (simp add: relay_inv_def)
  have f: "relay_matches_table (snd (execute_program w p m s))"
    using execute_program_inv [OF i] by (simp add: relay_inv_def)
  have g: "relay_matches_table (check_programs w s)"
    using check_programs_inv [OF i] by (simp add: relay_inv_def)
  have a': "(relay_on (snd (start_zone z d s)) \<noteq> relay_on s)
            = (active_zones s = [] \<and> active_zones (snd (start_zone z d s)) \<noteq> [])"
    using a assms(2) start_zone_table_not_emptied [of s z d]
    by (auto simp: relay_matches_table_def)
  have b': "(relay_on (snd (stop_zone z s)) \<noteq> relay_on s)
            = (active_zones s \<noteq> [] \<and> active_zones (snd (stop_zone z s)) = [])"
    using b assms(2) stop_zone_table_not_filled [of s z]
    by (auto simp: relay_matches_table_def)
  show ?thesis using a b a' b' c e f g by blast
qed

theorem relay_invariant_kept_witness:
  "gpio_ok idle_kernel \<and> relay_matches_table idle_kernel
   \<and> relay_matches_table (snd (start_zone 0 5 idle_kernel))
   \<and> relay_matches_table (snd (stop_zone 0 idle_kernel))
   \<and> relay_matches_table (fold apply_event [EStartZone 0 5, EStopZone 0] idle_kernel)
   \<and> relay_matches_table (snd (execute_program quiet_world prog_a True idle_kernel))
   \<and> relay_matches_table (check_programs quiet_world idle_kernel)"
proof -
  have a: "gpio_ok idle_kernel"
    by (simp add: gpio_ok_def idle_kernel_def mk_pin_def)
  have b: "relay_matches_table idle_kernel"
    by (simp add: relay_matches_table_def relay_on_def asserted_def idle_kernel_def mk_pin_def)
  show ?thesis
    using a b
      relay_invariant_kept [OF a b, of 0 5 "[EStartZone 0 5, EStopZone 0]" quiet_world prog_a True]
    by simp
qed

text \<open>
  The claim as stated fails where no safety relay is configured: \<open>start_zone\<close> tests
  \<open>safety_relay\<close> before it writes (line 168), the zone starts, and the table is
  non-empty with no relay asserted.
\<close>

theorem relay_invariant_counterexample:
  "relay_matches_table no_relay_kernel
   \<and> fst (start_zone 0 5 no_relay_kernel)
   \<and> active_zones (snd (start_zone 0 5 no_relay_kernel)) \<noteq> []
   \<and> \<not> relay_on (snd (start_zone 0 5 no_relay_kernel))"
  by (simp add: no_relay_kernel_def idle_kernel_def mk_pin_def relay_matches_table_def
        relay_on_def start_zone_def pin_value_def)

text \<open>
  Outside the condition of C2: when the write to the zone's pin raises in \<open>start_zone\<close>
  on an empty table, the call returns \<open>False\<close> (line 186) with the safety relay
  already asserted by line 170 and the table still empty.
\<close>

lemma start_zone_zone_pin_failure:
  assumes "\<not> ps_program_running s" and "map_of (zone_pins s) z = Some zp" and "faulty zp"
      and "0 < d" and "d \<le> max_zone_duration s" and "0 < max_active_zones s"
      and "active_zones s = []" and "safety_relay s = Some r" and "\<not> faulty r"
  shows "start_zone z d s = (False, s\<lparr>safety_relay := Some (r\<lparr>level := 0\<rparr>)\<rparr>)"
  using assms by (simp add: start_zone_def pin_value_def)

section \<open>Properties of the executor and the scheduler\<close>

text \<open>
  What the actuator never touches: the flags of both modules, the files, the settings
  and the clock.
\<close>

definition outside_actuator :: "kernel \<Rightarrow> kernel \<Rightarrow> bool" where
  "outside_actuator s s' =
     (ps_program_running s' = ps_program_running s
      \<and> ps_current_program_id s' = ps_current_program_id s
      \<and> pm_program_running s' = pm_program_running s
      \<and> pm_current_program_id s' = pm_current_program_id s
      \<and> state_file s' = state_file s
      \<and> program_file s' = program_file s
      \<and> writable s' = writable s
      \<and> max_zone_duration s' = max_zone_duration s
      \<and> max_active_zones s' = max_active_zones s
      \<and> activation_delay s' = activation_delay s
      \<and> automatic_programs_enabled s' = automatic_programs_enabled s
      \<and> now s' = now s
      \<and> ticks s' = ticks s)"

lemma outside_actuator_refl: "outside_actuator s s"
  by (simp add: outside_actuator_def)

lemma outside_actuator_trans:
  "outside_actuator s s' \<Longrightarrow> outside_actuator s' s'' \<Longrightarrow> outside_actuator s s''"
  by (simp add: outside_actuator_def)

lemma start_zone_outside: "outside_actuator s (snd (start_zone z d s))"
  by (simp add: outside_actuator_def start_zone_def pin_value_def Let_def split: option.splits)

lemma stop_zone_outside: "outside_actuator s (snd (stop_zone z s))"
  by (simp add: outside_actuator_def stop_zone_def pin_value_def Let_def split: option.splits)

lemma stop_each_outside: "outside_actuator s (snd (stop_each zs b s))"
proof (induction zs arbitrary: b s)
  case Nil
  show ?case by (simp add: outside_actuator_refl)
next
  case (Cons z zs)
  obtain ok s' where sz: "stop_zone z s = (ok, s')" by (cases "stop_zone z s")
  have "outside_actuator s s'" using stop_zone_outside [of s z] sz by simp
  then show ?case
    using Cons.IH [of s'] sz by (auto intro: outside_actuator_trans)
qed

lemma stop_all_zones_outside: "outside_actuator s (snd (stop_all_zones s))"
  by (simp add: stop_all_zones_def stop_each_outside outside_actuator_refl)

lemma zone_timer_fires_outside: "outside_actuator s (zone_timer_fires h s)"
proof -
  have a: "outside_actuator s (s\<lparr>timers := ts\<rparr>)" for ts
    by (simp add: outside_actuator_def)
  show ?thesis
    by (auto simp: zone_timer_fires_def Let_def outside_actuator_refl a
        intro: outside_actuator_trans [OF a stop_zone_outside])
qed


text \<open>
  What neither the actuator, nor the environment, nor the step loop touches: the flags
  of \<open>program_state.py\<close>, the programs file and whether the flash can be written.
\<close>

definition store_kept :: "kernel \<Rightarrow> kernel \<Rightarrow> bool" where
  "store_kept s s' =
     (ps_program_running s' = ps_program_running s
      \<and> ps_current_program_id s' = ps_current_program_id s
      \<and> program_file s' = program_file s
      \<and> writable s' = writable s)"

lemma store_kept_refl: "store_kept s s"
  by (simp add: store_kept_def)

lemma store_kept_trans: "store_kept s s' \<Longrightarrow> store_kept s' s'' \<Longrightarrow> store_kept s s''"
  by (simp add: store_kept_def)

lemma outside_store_kept: "outside_actuator s s' \<Longrightarrow> store_kept s s'"
  by (simp add: outside_actuator_def store_kept_def)

lemma save_program_state_store: "store_kept s (save_program_state s)"
  by (simp add: store_kept_def save_program_state_def)

lemma import_program_state_store: "store_kept s (import_program_state s)"
  by (simp add: store_kept_def import_program_state_def)

lemma set_running_store:
  "store_kept s (s\<lparr>pm_program_running := b, pm_current_program_id := c\<rparr>)"
  by (simp add: store_kept_def)

lemma stop_program_store: "store_kept s (snd (stop_program s))"
proof -
  let ?s0 = "import_program_state s"
  let ?s1 = "save_program_state (?s0\<lparr>pm_program_running := False, pm_current_program_id := None\<rparr>)"
  have "store_kept s ?s1"
    by (simp add: store_kept_def save_program_state_def import_program_state_def)
  moreover have "store_kept ?s1 (snd (stop_all_zones ?s1))"
    by (rule outside_store_kept [OF stop_all_zones_outside])
  ultimately have "store_kept s (snd (stop_all_zones ?s1))" by (rule store_kept_trans)
  then show ?thesis
    by (simp add: stop_program_def Let_def import_program_state_store)
qed

lemma apply_event_store: "store_kept s (apply_event e s)"
  by (cases e)
     (simp_all add: stop_program_store outside_store_kept start_zone_outside stop_zone_outside
        zone_timer_fires_outside)

lemma fold_apply_event_store: "store_kept s (fold apply_event es s)"
proof (induction es arbitrary: s)
  case Nil
  show ?case by (simp add: store_kept_refl)
next
  case (Cons e es)
  show ?case
    using store_kept_trans [OF apply_event_store [of s e] Cons.IH [of "apply_event e s"]] by simp
qed

lemma sleep1_store: "store_kept s (sleep1 w s)"
proof -
  have "store_kept s (s\<lparr>ticks := Suc (ticks s), now := now s + 1\<rparr>)"
    by (simp add: store_kept_def)
  then show ?thesis
    unfolding sleep1_def by (rule store_kept_trans [OF _ fold_apply_event_store])
qed

lemma wait_loop_store: "store_kept s (wait_loop w n s)"
proof (induction n arbitrary: s)
  case 0
  show ?case by (simp add: store_kept_refl)
next
  case (Suc n)
  show ?case
    using store_kept_trans [OF sleep1_store [of s w] Suc.IH [of "sleep1 w s"]]
    by (simp add: store_kept_refl)
qed

lemma run_steps_store: "store_kept s (snd (run_steps w delay n i steps s))"
proof -
  have "store_kept s x \<Longrightarrow> store_kept s (snd (run_steps w delay n i steps x))" for x
  proof (rule run_steps_preserves [of "store_kept s"])
    show "store_kept s (snd (start_zone z d y))" if "store_kept s y" for z d y
      by (rule store_kept_trans [OF that outside_store_kept [OF start_zone_outside]])
    show "store_kept s (snd (stop_zone z y))" if "store_kept s y" for z y
      by (rule store_kept_trans [OF that outside_store_kept [OF stop_zone_outside]])
    show "store_kept s (wait_loop w k y)" if "store_kept s y" for k y
      by (rule store_kept_trans [OF that wait_loop_store])
  qed
  then show ?thesis by (simp add: store_kept_refl)
qed

lemma execute_program_begin_store: "store_kept s (execute_program_begin w p m s)"
proof -
  define s1 where "s1 = (if \<not> m \<and> get_active_zones_count s > 0
                         then sleep1 w (snd (stop_all_zones s)) else s)"
  have k1: "store_kept s s1"
    unfolding s1_def
    using store_kept_trans [OF outside_store_kept [OF stop_all_zones_outside] sleep1_store]
    by (simp add: store_kept_refl)
  have k2: "store_kept s (snd (stop_all_zones s1))"
    by (rule store_kept_trans [OF k1 outside_store_kept [OF stop_all_zones_outside]])
  have k3: "store_kept s ((snd (stop_all_zones s1))\<lparr>pm_program_running := b, pm_current_program_id := c\<rparr>)" for b c
    by (rule store_kept_trans [OF k2 set_running_store])
  show ?thesis
    unfolding execute_program_begin_def Let_def s1_def [symmetric]
    by (rule store_kept_trans [OF k3 save_program_state_store])
qed


text \<open>
  \<open>dated d pid s\<close>: the programs file holds a program under \<open>pid\<close> whose
  \<open>last_run_date\<close> is \<open>d\<close>.
\<close>

definition dated :: "string \<Rightarrow> string \<Rightarrow> kernel \<Rightarrow> bool" where
  "dated d pid s =
     (case program_file s of
        Content ps \<Rightarrow> (case map_of ps pid of Some p \<Rightarrow> p_last_run_date p = Some d | None \<Rightarrow> False)
      | _ \<Rightarrow> False)"

definition has_key :: "string \<Rightarrow> kernel \<Rightarrow> bool" where
  "has_key pid s =
     (case program_file s of Content ps \<Rightarrow> pid \<in> fst ` set ps | _ \<Rightarrow> False)"

lemma store_kept_dated: "store_kept s s' \<Longrightarrow> dated d pid s' = dated d pid s"
  by (simp add: store_kept_def dated_def)

lemma store_kept_has_key: "store_kept s s' \<Longrightarrow> has_key pid s' = has_key pid s"
  by (simp add: store_kept_def has_key_def)

lemma map_of_fill_id:
  "map_of (map fill_id ps) k = map_option (\<lambda>p. if p_id p = None then p\<lparr>p_id := Some k\<rparr> else p) (map_of ps k)"
  by (induction ps) (auto simp: fill_id_def)

lemma keys_fill_id: "fst ` fill_id ` set ps = fst ` set ps"
  by (force simp: fill_id_def image_iff split: prod.splits)

lemma load_programs_Content:
  "program_file s = Content ps \<Longrightarrow> load_programs s = (map fill_id ps, s)"
  by (simp add: load_programs_def)


lemma update_last_run_date_has_key:
  "has_key k s \<Longrightarrow> has_key k (update_last_run_date w pid s)"
  by (auto simp: has_key_def update_last_run_date_def load_programs_Content save_programs_def
        Let_def dom_update keys_fill_id
        split: stored.splits option.splits)

lemma update_last_run_date_sets:
  "writable s \<Longrightarrow> has_key pid s \<Longrightarrow>
   dated (lt_date (local_time w s)) pid (update_last_run_date w pid s)"
  by (auto simp: has_key_def dated_def update_last_run_date_def load_programs_Content
        save_programs_def Let_def update_conv' map_of_fill_id map_of_eq_None_iff
        split: stored.splits option.splits)

text \<open>
  The cleanup of a run clears the flag of \<open>program_manager.py\<close> and touches neither
  the flag of \<open>program_state.py\<close> nor the programs file; a run that finds the flag of
  \<open>program_state.py\<close> clear passes the busy test and leaves both flags clear.
\<close>

lemma execute_program_finally_effect:
  "\<not> pm_program_running (execute_program_finally s) \<and> store_kept s (execute_program_finally s)"
proof -
  define s6 where "s6 = save_program_state (s\<lparr>pm_program_running := False, pm_current_program_id := None\<rparr>)"
  have e: "execute_program_finally s = snd (stop_all_zones s6)"
    by (simp add: execute_program_finally_def Let_def s6_def)
  have o: "outside_actuator s6 (snd (stop_all_zones s6))" by (rule stop_all_zones_outside)
  have k6: "store_kept s s6"
    unfolding s6_def by (rule store_kept_trans [OF set_running_store save_program_state_store])
  have pm6: "\<not> pm_program_running s6" by (simp add: s6_def save_program_state_def)
  show ?thesis
    using o pm6 store_kept_trans [OF k6 outside_store_kept [OF o]]
    by (simp add: e outside_actuator_def)
qed

lemma execute_program_not_busy:
  assumes "\<not> ps_program_running s"
  shows "execute_program w p m s =
           (let s3 = execute_program_begin w p m (import_program_state s) in
            case run_steps w (activation_delay s3) (length (p_steps p)) 0 (p_steps p) s3 of
              (None, s4) \<Rightarrow> (True, execute_program_end w p s4)
            | (Some e, s4) \<Rightarrow> (False, execute_program_finally s4))"
  using assms by (simp add: execute_program_def Let_def import_program_state_def)


subsection \<open>Claim C1\<close>

lemma start_zone_busy_guard: "ps_program_running s \<Longrightarrow> start_zone z d s = (False, s)"
  by (simp add: start_zone_def)

lemma executor_leaves_busy_flag:
  "ps_program_running (execute_program_begin w p m (import_program_state s)) = ps_program_running s"
  using store_kept_trans [OF import_program_state_store execute_program_begin_store, of s w p m]
  by (simp add: store_kept_def)

text \<open>
  C1, on the code. \<open>start_zone\<close> rejects when \<open>program_state.program_running\<close> is set
  (\<open>start_zone_busy_guard\<close>), but the executor sets the global of
  \<open>program_manager.py\<close> and leaves that of \<open>program_state.py\<close> as it was
  (\<open>executor_leaves_busy_flag\<close>). In the middle of the run of program A the executor's
  flag is set, the flag that \<open>start_zone\<close> reads is clear, and an external
  \<open>start_zone(3, 2)\<close> succeeds and enters zone 3 in the active-zone table.
\<close>

theorem start_zone_during_program_run:
  "pm_program_running running_kernel
   \<and> pm_current_program_id running_kernel = Some ''1''
   \<and> \<not> ps_program_running running_kernel
   \<and> fst (start_zone 3 2 running_kernel)
   \<and> map_of (active_zones (snd (start_zone 3 2 running_kernel))) 3
        = Some \<lparr>az_start_time = 0, az_duration = 2, az_task = 0\<rparr>"
  by code_simp

subsection \<open>Claim C4\<close>

lemma execute_program_always_dates:
  assumes "\<not> ps_program_running s" and "writable s" and "has_key (program_id_of p) s"
      and "\<And>t. lt_date (clock w t) = d"
      and "fst (execute_program w p m s)"
  shows "dated d (program_id_of p) (snd (execute_program w p m s))"
proof -
  define s3 where "s3 = execute_program_begin w p m (import_program_state s)"
  obtain e s4 where r: "run_steps w (activation_delay s3) (length (p_steps p)) 0 (p_steps p) s3 = (e, s4)"
    by (cases "run_steps w (activation_delay s3) (length (p_steps p)) 0 (p_steps p) s3")
  define s5 where "s5 = update_last_run_date w (program_id_of p) s4"
  have ex: "execute_program w p m s =
              (case e of None \<Rightarrow> (True, execute_program_finally s5)
                       | Some x \<Rightarrow> (False, execute_program_finally s4))"
    using r
    by (simp add: execute_program_not_busy [OF assms(1)] Let_def s3_def [symmetric]
          execute_program_end_def s5_def split: option.splits)
  have e: "e = None" using assms(5) by (cases e) (simp_all add: ex)
  have k3: "store_kept s s3"
    unfolding s3_def by (rule store_kept_trans [OF import_program_state_store execute_program_begin_store])
  have k4: "store_kept s s4"
    using store_kept_trans [OF k3
            run_steps_store [of s3 w "activation_delay s3" "length (p_steps p)" 0 "p_steps p"]] r
    by simp
  have w4: "writable s4" and h4: "has_key (program_id_of p) s4"
    using k4 assms(2,3) store_kept_has_key [OF k4] by (simp_all add: store_kept_def)
  have d5: "dated d (program_id_of p) s5"
    unfolding s5_def using update_last_run_date_sets [OF w4 h4, of w] assms(4)
    by (simp add: local_time_def)
  have k6: "store_kept s5 (execute_program_finally s5)"
    using execute_program_finally_effect [of s5] by simp
  show ?thesis
    using d5 store_kept_dated [OF k6] by (simp add: ex e)
qed

text \<open>
  C4, on the code. The \<open>break\<close> of lines 260-263 and 287-288 leaves the step loop and
  falls through to \<open>update_last_run_date\<close> (line 303): every run that returns \<open>True\<close>
  has set the date, whatever the environment did in between
  (\<open>execute_program_always_dates\<close>), and a cancelled run returns \<open>True\<close>. Here program
  A (one step of one minute on zone 0) is stopped by \<open>stop_program\<close> in sleep 30: the run
  ends after 31 of its 60 sleeps, returns \<open>True\<close>, and the stored program, which had no
  \<open>last_run_date\<close>, has today's. Only a run that an exception leaves (lines 306-309)
  returns \<open>False\<close> and sets no date: with a \<open>duration\<close> held as the string
  \<open>"2"\<close>, \<open>start_zone\<close> converts it and starts the zone, \<open>range\<close> raises
  TypeError, and the cleanup stops the zone (\<open>failing_step_leaves_last_run_date\<close>).
\<close>

lemma failing_step_leaves_last_run_date:
  "execute_program quiet_world prog_text_duration True one_program_kernel
     = (False, one_program_kernel\<lparr>timers := [\<lparr>t_zone = 0, t_duration = 2, t_state = Cancelled\<rparr>]\<rparr>)"
  by code_simp

theorem cancelled_run_sets_last_run_date:
  "fst (execute_program cancelling_world prog_a True one_program_kernel)
   \<and> \<not> dated ''2024-06-15'' ''1'' one_program_kernel
   \<and> dated ''2024-06-15'' ''1''
        (snd (execute_program cancelling_world prog_a True one_program_kernel))
   \<and> ticks (snd (execute_program cancelling_world prog_a True one_program_kernel)) = 31"
  by code_simp

subsection \<open>Claim C5\<close>












subsection \<open>Claim C7\<close>

















section \<open>Properties of the program routes\<close>

subsection \<open>Claim C6\<close>









section \<open>Properties of the settings store\<close>

text \<open>
  What C10 says of a zone entry at index \<open>i\<close>: each of the four keys keeps its value
  when present and gets \<open>i\<close>, \<open>'show'\<close>, \<open>14 + i\<close> and \<open>'Zona i+1'\<close> when
  missing; every other key of the entry is as it was.
\<close>

definition zone_filled :: "nat \<Rightarrow> (string \<times> json) list \<Rightarrow> (string \<times> json) list \<Rightarrow> bool" where
  "zone_filled i z z' =
     (map_of z' ''id'' = Some (case map_of z ''id'' of None \<Rightarrow> JInt (int i) | Some v \<Rightarrow> v)
      \<and> map_of z' ''status'' = Some (case map_of z ''status'' of None \<Rightarrow> JStr ''show'' | Some v \<Rightarrow> v)
      \<and> map_of z' ''pin'' = Some (case map_of z ''pin'' of None \<Rightarrow> JInt (14 + int i) | Some v \<Rightarrow> v)
      \<and> map_of z' ''name'' =
          Some (case map_of z ''name'' of None \<Rightarrow> JStr (''Zona '' @ str_of_nat (i + 1)) | Some v \<Rightarrow> v)
      \<and> (\<forall>k. k \<notin> set zone_keys \<longrightarrow> map_of z' k = map_of z k))"

lemma map_of_setdefault:
  "map_of (setdefault k v d) k' = (if k' = k \<and> map_of d k = None then Some v else map_of d k')"
  by (auto simp: setdefault_def update_conv' map_of_eq_None_iff)

lemma keys_setdefault: "fst ` set (setdefault k v d) = insert k (fst ` set d)"
  by (auto simp: setdefault_def dom_update)

lemma map_of_fold_setdefault:
  "map_of (fold (\<lambda>(key, v) d. setdefault key v d) fs d) k =
     (case map_of d k of Some v \<Rightarrow> Some v | None \<Rightarrow> map_of fs k)"
proof (induction fs arbitrary: d)
  case Nil
  show ?case by (simp split: option.splits)
next
  case (Cons a fs)
  obtain key v where a: "a = (key, v)" by (cases a)
  show ?case
    by (simp add: a Cons.IH map_of_setdefault split: option.splits)
qed

lemma keys_fold_setdefault:
  "fst ` set (fold (\<lambda>(key, v) d. setdefault key v d) fs d) = fst ` set d \<union> fst ` set fs"
proof (induction fs arbitrary: d)
  case Nil
  show ?case by simp
next
  case (Cons a fs)
  obtain key v where a: "a = (key, v)" by (cases a)
  show ?case by (auto simp: a Cons.IH keys_setdefault)
qed

lemma normalise_zone_filled: "zone_filled i z (normalise_zone i z)"
  by (simp add: zone_filled_def normalise_zone_def map_of_setdefault zone_keys_def
        split: option.splits)

lemma normalise_entries_nth:
  "normalise_entries i0 zs = Inr zs' \<Longrightarrow>
   length zs' = length zs \<and> (\<forall>j < length zs. normalise_entry (i0 + j) (zs ! j) = Inr (zs' ! j))"
proof (induction zs arbitrary: i0 zs')
  case Nil
  then show ?case by simp
next
  case (Cons z zs)
  from Cons.prems obtain z' rest where
    z': "normalise_entry i0 z = Inr z'" and rest: "normalise_entries (Suc i0) zs = Inr rest"
    and zs': "zs' = z' # rest"
    by (auto split: sum.splits)
  from Cons.IH [OF rest]
  have l: "length rest = length zs"
    and n: "\<forall>j < length zs. normalise_entry (Suc i0 + j) (zs ! j) = Inr (rest ! j)" by simp_all
  show ?case
  proof (intro conjI allI impI)
    show "length zs' = length (z # zs)" using l zs' by simp
  next
    fix j assume "j < length (z # zs)"
    then show "normalise_entry (i0 + j) ((z # zs) ! j) = Inr (zs' ! j)"
      using z' n zs' by (cases j) simp_all
  qed
qed


lemma factory_zones_complete:
  "normalise_zones (the (map_of FACTORY_SETTINGS ''zones'')) = Inr (the (map_of FACTORY_SETTINGS ''zones''))"
  by code_simp

lemma factory_has_zones: "map_of FACTORY_SETTINGS ''zones'' \<noteq> None"
  by code_simp

lemma map_of_fill_factory_keys:
  "map_of (fill_factory_keys d) k =
     (case map_of d k of Some v \<Rightarrow> Some v | None \<Rightarrow> map_of FACTORY_SETTINGS k)"
  by (simp add: fill_factory_keys_def map_of_fold_setdefault)

lemma keys_fill_factory_keys:
  "fst ` set (fill_factory_keys d) = fst ` set d \<union> fst ` set FACTORY_SETTINGS"
  by (simp add: fill_factory_keys_def keys_fold_setdefault)

lemma save_user_settings_persists:
  assumes "save_user_settings (JObj d) st = (Inr True, st')"
  shows "\<exists>zones zones'. map_of (fill_factory_keys d) ''zones'' = Some zones
           \<and> normalise_zones zones = Inr zones'
           \<and> user_settings_file st' =
               Content (JObj (AList.update ''zones'' zones' (fill_factory_keys d)))"
proof -
  have "map_of (fill_factory_keys d) ''zones'' \<noteq> None"
    using factory_has_zones by (simp add: map_of_fill_factory_keys split: option.splits)
  then obtain zones where z: "map_of (fill_factory_keys d) ''zones'' = Some zones"
    by blast
  obtain zones' where n: "normalise_zones zones = Inr zones'"
    using assms z by (cases "normalise_zones zones") (simp_all add: save_user_settings_def Let_def)
  have "write_settings (AList.update ''zones'' zones' (fill_factory_keys d)) st = (Inr True, st')"
    using assms z n by (simp add: save_user_settings_def Let_def)
  then have "user_settings_file st' = Content (JObj (AList.update ''zones'' zones' (fill_factory_keys d)))"
    by (auto simp: write_settings_def split: if_splits)
  then show ?thesis using z n by blast
qed

subsection \<open>Claim C10\<close>

text \<open>
  C10. When \<open>save_user_settings\<close> persists a settings dictionary, the persisted
  document contains every factory key; every top-level key missing from the input has
  the factory value; every other key of the input except \<open>zones\<close> keeps its value;
  and the \<open>zones\<close> list has the same length, with every entry at index \<open>i\<close> that
  is an object filled as \<open>zone_filled\<close> says.
\<close>

theorem save_user_settings_normalises:
  assumes "save_user_settings (JObj d) st = (Inr True, st')"
  shows "\<exists>d'. user_settings_file st' = Content (JObj d')
       \<and> fst ` set FACTORY_SETTINGS \<subseteq> fst ` set d'
       \<and> (\<forall>k. k \<notin> fst ` set d \<longrightarrow> map_of d' k = map_of FACTORY_SETTINGS k)
       \<and> (\<forall>k. k \<in> fst ` set d \<and> k \<noteq> ''zones'' \<longrightarrow> map_of d' k = map_of d k)
       \<and> (\<forall>zs. map_of d ''zones'' = Some (JList zs) \<longrightarrow>
             (\<exists>zs'. map_of d' ''zones'' = Some (JList zs') \<and> length zs' = length zs
                \<and> (\<forall>i z. i < length zs \<and> zs ! i = JObj z \<longrightarrow>
                      (\<exists>z'. zs' ! i = JObj z' \<and> zone_filled i z z'))))"
proof -
  from save_user_settings_persists [OF assms] obtain zones zones' where
    z: "map_of (fill_factory_keys d) ''zones'' = Some zones"
    and n: "normalise_zones zones = Inr zones'"
    and f: "user_settings_file st' = Content (JObj (AList.update ''zones'' zones' (fill_factory_keys d)))"
    by blast
  define d' where "d' = AList.update ''zones'' zones' (fill_factory_keys d)"
  have m: "map_of d' k = (if k = ''zones'' then Some zones' else map_of (fill_factory_keys d) k)" for k
    by (simp add: d'_def update_conv')
  have keys: "fst ` set FACTORY_SETTINGS \<subseteq> fst ` set d'"
    by (auto simp: d'_def dom_update keys_fill_factory_keys)
  have missing: "map_of d' k = map_of FACTORY_SETTINGS k" if "k \<notin> fst ` set d" for k
  proof -
    have none: "map_of d k = None" using that by (simp add: map_of_eq_None_iff)
    show ?thesis
    proof (cases "k = ''zones''")
      case False
      then show ?thesis using none by (simp add: m map_of_fill_factory_keys)
    next
      case True
      have "zones = the (map_of FACTORY_SETTINGS ''zones'')"
        using z none True by (simp add: map_of_fill_factory_keys)
      then have "zones' = the (map_of FACTORY_SETTINGS ''zones'')"
        using n factory_zones_complete by simp
      then show ?thesis using True factory_has_zones by (auto simp: m)
    qed
  qed
  have present: "map_of d' k = map_of d k" if "k \<in> fst ` set d" "k \<noteq> ''zones''" for k
  proof -
    have "map_of d k \<noteq> None" using that(1) by (simp add: map_of_eq_None_iff)
    then obtain v where "map_of d k = Some v" by blast
    then show ?thesis using that(2) by (simp add: m map_of_fill_factory_keys)
  qed
  have zl: "\<exists>zs'. map_of d' ''zones'' = Some (JList zs') \<and> length zs' = length zs
                \<and> (\<forall>i z. i < length zs \<and> zs ! i = JObj z \<longrightarrow>
                      (\<exists>z'. zs' ! i = JObj z' \<and> zone_filled i z z'))"
    if "map_of d ''zones'' = Some (JList zs)" for zs
  proof -
    have "zones = JList zs" using z that by (simp add: map_of_fill_factory_keys)
    then obtain zs' where e: "normalise_entries 0 zs = Inr zs'" and zs': "zones' = JList zs'"
      using n by (auto simp: normalise_zones_def split: sum.splits)
    from normalise_entries_nth [OF e]
    have l: "length zs' = length zs"
      and nth: "\<forall>j < length zs. normalise_entry j (zs ! j) = Inr (zs' ! j)" by simp_all
    have "\<exists>z'. zs' ! i = JObj z' \<and> zone_filled i z z'" if "i < length zs" "zs ! i = JObj z" for i z
    proof -
      have "zs' ! i = JObj (normalise_zone i z)"
        using nth that by (auto simp: normalise_entry_def)
      then show ?thesis using normalise_zone_filled by blast
    qed
    then show ?thesis using l zs' by (auto simp: m)
  qed
  show ?thesis
    using f keys missing present zl unfolding d'_def [symmetric] by blast
qed

theorem save_user_settings_normalises_witness:
  "fst (save_user_settings (JObj partial_settings) empty_flash) = Inr True
   \<and> (case user_settings_file (snd (save_user_settings (JObj partial_settings) empty_flash)) of
         Content (JObj d') \<Rightarrow>
           map_of d' ''activation_delay'' = Some (JInt 5)
           \<and> map_of d' ''max_active_zones'' = Some (JInt 2)
           \<and> (\<exists>zs' z'. map_of d' ''zones'' = Some (JList zs') \<and> zs' ! 1 = JObj z'
                 \<and> map_of z' ''id'' = Some (JInt 1)
                 \<and> map_of z' ''pin'' = Some (JInt 15)
                 \<and> map_of z' ''name'' = Some (JStr ''Zona 2''))
       | _ \<Rightarrow> False)"
proof -
  define st' where "st' = snd (save_user_settings (JObj partial_settings) empty_flash)"
  have ok: "fst (save_user_settings (JObj partial_settings) empty_flash) = Inr True"
    by code_simp
  then have h: "save_user_settings (JObj partial_settings) empty_flash = (Inr True, st')"
    unfolding st'_def by (metis prod.collapse)
  from save_user_settings_normalises [OF h] obtain d' where
    all: "user_settings_file st' = Content (JObj d')
       \<and> fst ` set FACTORY_SETTINGS \<subseteq> fst ` set d'
       \<and> (\<forall>k. k \<notin> fst ` set partial_settings \<longrightarrow> map_of d' k = map_of FACTORY_SETTINGS k)
       \<and> (\<forall>k. k \<in> fst ` set partial_settings \<and> k \<noteq> ''zones'' \<longrightarrow> map_of d' k = map_of partial_settings k)
       \<and> (\<forall>zs. map_of partial_settings ''zones'' = Some (JList zs) \<longrightarrow>
             (\<exists>zs'. map_of d' ''zones'' = Some (JList zs') \<and> length zs' = length zs
                \<and> (\<forall>i z. i < length zs \<and> zs ! i = JObj z \<longrightarrow>
                      (\<exists>z'. zs' ! i = JObj z' \<and> zone_filled i z z'))))" ..
  note f = all [THEN conjunct1]
  note missing = all [THEN conjunct2, THEN conjunct2, THEN conjunct1]
  note present = all [THEN conjunct2, THEN conjunct2, THEN conjunct2, THEN conjunct1]
  note zl = all [THEN conjunct2, THEN conjunct2, THEN conjunct2, THEN conjunct2]
  have k1: "''activation_delay'' \<notin> fst ` set partial_settings"
    by (simp add: partial_settings_def)
  have k2: "''max_active_zones'' \<in> fst ` set partial_settings \<and> ''max_active_zones'' \<noteq> ''zones''"
    by (simp add: partial_settings_def)
  have v1: "map_of FACTORY_SETTINGS ''activation_delay'' = Some (JInt 5)"
    by (simp add: FACTORY_SETTINGS_def)
  have v2: "map_of partial_settings ''max_active_zones'' = Some (JInt 2)"
    by (simp add: partial_settings_def)
  have a: "map_of d' ''activation_delay'' = Some (JInt 5)"
    using missing [rule_format, OF k1] v1 by simp
  have b: "map_of d' ''max_active_zones'' = Some (JInt 2)"
    using present [rule_format, OF k2] v2 by simp
  have v3: "map_of partial_settings ''zones'' = Some (JList [JObj [(''name'', JStr ''Orto'')], JObj []])"
    by (simp add: partial_settings_def)
  from zl [rule_format, OF v3] obtain zs' where
    zz: "map_of d' ''zones'' = Some (JList zs')
       \<and> length zs' = length [JObj [(''name'', JStr ''Orto'')], JObj []]
       \<and> (\<forall>i z. i < length [JObj [(''name'', JStr ''Orto'')], JObj []]
                 \<and> [JObj [(''name'', JStr ''Orto'')], JObj []] ! i = JObj z \<longrightarrow>
                      (\<exists>z'. zs' ! i = JObj z' \<and> zone_filled i z z'))" ..
  note z1 = zz [THEN conjunct1]
  note z2 = zz [THEN conjunct2, THEN conjunct2]
  have v4: "(1::nat) < length [JObj [(''name'', JStr ''Orto'')], JObj []]
            \<and> [JObj [(''name'', JStr ''Orto'')], JObj []] ! 1 = JObj []"
    by simp
  from z2 [rule_format, OF v4] obtain z' where z34: "zs' ! 1 = JObj z' \<and> zone_filled 1 [] z'" ..
  have "str_of_nat 2 = ''2''" by code_simp
  then have n2: "str_of_nat (Suc (Suc 0)) = ''2''" by (simp only: numeral_2_eq_2)
  have c: "map_of z' ''id'' = Some (JInt 1) \<and> map_of z' ''pin'' = Some (JInt 15)
         \<and> map_of z' ''name'' = Some (JStr ''Zona 2'')"
    using z34 [THEN conjunct2] by (simp add: zone_filled_def n2 del: str_of_nat.simps)
  have "\<exists>zs' z'. map_of d' ''zones'' = Some (JList zs') \<and> zs' ! 1 = JObj z'
                 \<and> map_of z' ''id'' = Some (JInt 1)
                 \<and> map_of z' ''pin'' = Some (JInt 15)
                 \<and> map_of z' ''name'' = Some (JStr ''Zona 2'')"
    using z1 z34 [THEN conjunct1] c by blast
  then show ?thesis
    using ok f a b unfolding st'_def [symmetric] by (simp del: str_of_nat.simps)
qed

subsection \<open>Claim C8\<close>

text \<open>The defaults of lines 69-77 of \<open>load_user_settings\<close>, in the order of the calls.\<close>

definition load_defaults :: "(string \<times> json) list" where
  "load_defaults =
     [(''zones'', the (map_of FACTORY_SETTINGS ''zones'')),
      (''max_active_zones'', JInt 3),
      (''activation_delay'', JInt 5),
      (''safety_relay'', JObj [(''pin'', JInt 13)]),
      (''ap'', JObj [(''ssid'', JStr ''IrrigationSystem''), (''password'', JStr ''12345678'')]),
      (''wifi'', JObj [(''ssid'', JStr []), (''password'', JStr [])]),
      (''automatic_programs_enabled'', JBool False),
      (''client_enabled'', JBool False),
      (''max_zone_duration'', JInt 180)]"

lemma load_user_settings_fold:
  "user_settings_file st = Content (JObj d) \<Longrightarrow>
   load_user_settings st = (Inr (fold (\<lambda>(key, v) d. setdefault key v d) load_defaults d), st)"
  by (simp add: load_user_settings_def load_defaults_def)

lemma load_defaults_factory: "map_of load_defaults k = map_of FACTORY_SETTINGS k"
  by (simp add: load_defaults_def FACTORY_SETTINGS_def)

lemma load_defaults_keys: "fst ` set load_defaults = fst ` set FACTORY_SETTINGS"
  by (simp add: load_defaults_def FACTORY_SETTINGS_def insert_commute)

text \<open>
  C8 (as amended). For every stored settings document that is readable (a JSON object)
  but misses some keys, \<open>load_user_settings\<close> returns a document that contains every
  factory key, in which every missing key has the factory value and every key of the
  stored document keeps its value; the load does not write, and the stored document is
  left as it was.
\<close>

theorem load_user_settings_fills_defaults:
  assumes "user_settings_file st = Content (JObj d)"
  shows "\<exists>d'. load_user_settings st = (Inr d', st)
       \<and> fst ` set FACTORY_SETTINGS \<subseteq> fst ` set d'
       \<and> (\<forall>k. map_of d' k = (case map_of d k of Some v \<Rightarrow> Some v
                                | None \<Rightarrow> map_of FACTORY_SETTINGS k))"
  using load_user_settings_fold [OF assms]
  by (auto simp: map_of_fold_setdefault keys_fold_setdefault load_defaults_factory
        load_defaults_keys split: option.splits)

theorem load_user_settings_fills_defaults_witness:
  "\<exists>d'. load_user_settings partial_flash = (Inr d', partial_flash)
       \<and> map_of d' ''max_active_zones'' = Some (JInt 2)
       \<and> map_of d' ''max_zone_duration'' = Some (JInt 180)"
proof -
  have a: "user_settings_file partial_flash = Content (JObj partial_settings)"
    by (simp add: partial_flash_def)
  from load_user_settings_fills_defaults [OF a] obtain d' where
    all: "load_user_settings partial_flash = (Inr d', partial_flash)
       \<and> fst ` set FACTORY_SETTINGS \<subseteq> fst ` set d'
       \<and> (\<forall>k. map_of d' k = (case map_of partial_settings k of Some v \<Rightarrow> Some v
                                | None \<Rightarrow> map_of FACTORY_SETTINGS k))" ..
  note m = all [THEN conjunct2, THEN conjunct2, rule_format]
  have "map_of d' ''max_active_zones'' = Some (JInt 2)"
    by (simp add: m [of "''max_active_zones''"] partial_settings_def)
  moreover have "map_of d' ''max_zone_duration'' = Some (JInt 180)"
    by (simp add: m [of "''max_zone_duration''"] partial_settings_def FACTORY_SETTINGS_def)
  ultimately show ?thesis using all by blast
qed

text \<open>
  The claim as stated fails: the stored document lacks \<open>activation_delay\<close>, the
  loaded one has the factory value 5, and after the load the stored document is still
  the one without the key.
\<close>

theorem load_user_settings_counterexample:
  "(case fst (load_user_settings partial_flash) of
      Inr d' \<Rightarrow> map_of d' ''activation_delay'' = Some (JInt 5)
    | Inl e \<Rightarrow> False)
   \<and> user_settings_file (snd (load_user_settings partial_flash)) = Content (JObj partial_settings)
   \<and> map_of partial_settings ''activation_delay'' = None"
  by code_simp

end
